theory Spec2Isabelle
  imports Main "HOL-Library.Word"
begin

section \<open>The GPU flat index node (src/index/gpu/flat_gpu/flat_gpu.cc)\<close>

subsection \<open>Values exchanged with the node\<close>

text \<open>
  The status codes that \<open>GpuFlatIndexNode\<close> returns. \<open>expected<T>\<close> is either a value or
  \<open>Err(status, message)\<close>.
\<close>

datatype Status =
    success
  | invalid_metric_type
  | empty_index
  | invalid_binary_set
  | faiss_inner_error
  | not_implemented

type_synonym 'a expected = "(Status \<times> string) + 'a"

text \<open>
  \<open>float\<close> values are carried around but never computed with by the node, so they are kept
  as their 32-bit patterns. Row counts, dimensions and \<open>k\<close> are sizes (\<open>nat\<close>); no claim
  below depends on their overflow.
\<close>

type_synonym float = "32 word"
type_synonym int64_t = "64 word"
type_synonym byte = "8 word"

text \<open>
  What goes wrong without an error value: \<open>index_->\<close> on a null \<open>index_\<close>, and a read or
  write outside an array. Both are undefined behaviour in the source and a separate
  outcome here. An allocation that fails (\<open>new (std::nothrow)\<close> returning null) and an
  exception that is not a \<open>std::exception\<close> are outside the model.
\<close>

datatype fault = null_dereference | out_of_bounds

text \<open>
  A \<open>DataSet\<close> holds the fields the node reads (\<open>GetRows\<close>, \<open>GetDim\<close>, \<open>GetTensor\<close>,
  \<open>GetIds\<close>) and those a result carries. A field that was never set is \<open>0\<close> or \<open>[]\<close>.
\<close>

record DataSet =
  rows :: nat
  dim :: nat
  tensor :: "float list"
  ids :: "int64_t list"
  distance :: "float list"

definition empty_DataSet :: DataSet where
  "empty_DataSet = \<lparr>rows = 0, dim = 0, tensor = [], ids = [], distance = []\<rparr>"

text \<open>\<open>GenResultDataSet(nq, k, ids, dis)\<close> and \<open>GenResultDataSet(xq)\<close>.\<close>

definition GenResultDataSet :: "nat \<Rightarrow> nat \<Rightarrow> int64_t list \<Rightarrow> float list \<Rightarrow> DataSet" where
  "GenResultDataSet nq topk I D = empty_DataSet\<lparr>rows := nq, dim := topk, ids := I, distance := D\<rparr>"

definition GenResultDataSet_tensor :: "float list \<Rightarrow> DataSet" where
  "GenResultDataSet_tensor xq = empty_DataSet\<lparr>tensor := xq\<rparr>"

text \<open>The two configuration fields the node reads: \<open>f_cfg.metric_type\<close> and \<open>f_cfg.k\<close>.\<close>

record Config =
  metric_type :: string
  k :: nat

type_synonym BitsetView = "bool list"

text \<open>
  A \<open>BinarySet\<close> maps a name to a byte buffer with its size (the length of the list).
  \<open>GetByName\<close> returns \<open>nullptr\<close> (\<open>None\<close>) for a name that is not present; \<open>Append\<close>
  stores the buffer under the name.
\<close>

type_synonym BinarySet = "string \<rightharpoonup> byte list"

definition GetByName :: "BinarySet \<Rightarrow> string \<Rightarrow> byte list option" where
  "GetByName binset name = binset name"

definition Append :: "BinarySet \<Rightarrow> string \<Rightarrow> byte list \<Rightarrow> BinarySet" where
  "Append binset name data = binset(name \<mapsto> data)"

text \<open>
  The GPU resource that \<open>GPUResMgr::GetInstance().GetRes()\<close> hands out, with its fields
  \<open>faiss_res_\<close> and \<open>gpu_id_\<close>.
\<close>

record Resource =
  faiss_res :: nat
  gpu_id :: int

subsection \<open>What the node calls but does not define\<close>

text \<open>
  The node delegates to the faiss library, to \<open>Str2FaissMetricType\<close>, to \<open>IndexEnum\<close> and
  to the GPU resource manager. None of them is part of the two source files, so they are
  parameters: \<open>'idx\<close> is the library's index object and \<open>'m\<close> its metric type. A library
  call that throws \<open>std::exception\<close> returns \<open>Inl\<close> of \<open>e.what()\<close>. \<open>search\<close> and
  \<open>reconstruct\<close> write through pointers; here they return the values they write, from
  the pointer onwards.
\<close>

record ('idx, 'm) externals =
  INDEX_FAISS_GPU_IDMAP :: string
  metric_map :: "string \<rightharpoonup> 'm"
  IndexFlat :: "nat \<Rightarrow> 'm \<Rightarrow> 'idx"
  search :: "'idx \<Rightarrow> nat \<Rightarrow> float list \<Rightarrow> nat \<Rightarrow> BitsetView \<Rightarrow> string + (float list \<times> int64_t list)"
  reconstruct :: "'idx \<Rightarrow> int64_t \<Rightarrow> string + float list"
  write_index :: "'idx \<Rightarrow> string + byte list"
  read_index :: "byte list \<Rightarrow> string + 'idx"
  index_cpu_to_gpu :: "nat \<Rightarrow> int \<Rightarrow> 'idx \<Rightarrow> string + 'idx"
  GetRes :: Resource

text \<open>
  Modelled from the spec: \<open>Str2FaissMetricType\<close> (common/metric.h) is not among the source
  files. The spec says that a requested distance metric that is unsupported fails with
  \<open>InvalidMetric\<close>; the table of supported metrics is the parameter \<open>metric_map\<close>.
\<close>

definition Str2FaissMetricType :: "('idx, 'm) externals \<Rightarrow> string \<Rightarrow> 'm expected" where
  "Str2FaissMetricType E name =
     (case metric_map E name of
        None \<Rightarrow> Inl (invalid_metric_type, ''invalid metric type'')
      | Some m \<Rightarrow> Inr m)"

text \<open>
  Writing \<open>vals\<close> into the array \<open>buf\<close> from position \<open>off\<close>. An array keeps its length;
  a write that does not fit is out of bounds. A freshly allocated array is all zeros
  here: its content is indeterminate in the source until the library has written it.
\<close>

definition store :: "'a list \<Rightarrow> nat \<Rightarrow> 'a list \<Rightarrow> fault + 'a list" where
  "store buf off vals =
     (if off + length vals \<le> length buf
      then Inr (take off buf @ vals @ drop (off + length vals) buf)
      else Inl out_of_bounds)"

subsection \<open>The node and its operations\<close>

record 'idx GpuFlatIndexNode =
  res_ptr :: "Resource option"
  index_ptr :: "'idx option"

text \<open>
  The fields are \<open>res_\<close> and \<open>index_\<close> in the source; a name cannot end with an underscore
  here. A null \<open>index_\<close> is \<open>None\<close>. The constructor sets \<open>index_(nullptr)\<close>.
\<close>

definition new_GpuFlatIndexNode :: "'idx GpuFlatIndexNode" where
  "new_GpuFlatIndexNode = \<lparr>res_ptr = None, index_ptr = None\<rparr>"

definition Type :: "('idx, 'm) externals \<Rightarrow> string" where
  "Type E = INDEX_FAISS_GPU_IDMAP E"

definition Train ::
  "('idx, 'm) externals \<Rightarrow> 'idx GpuFlatIndexNode \<Rightarrow> DataSet \<Rightarrow> Config
     \<Rightarrow> Status \<times> 'idx GpuFlatIndexNode" where
  "Train E node dataset cfg =
     (case Str2FaissMetricType E (metric_type cfg) of
        Inl err \<Rightarrow> (fst err, node)
      | Inr metric \<Rightarrow> (success, node\<lparr>index_ptr := Some (IndexFlat E (dim dataset) metric)\<rparr>))"

definition Search ::
  "('idx, 'm) externals \<Rightarrow> 'idx GpuFlatIndexNode \<Rightarrow> DataSet \<Rightarrow> Config \<Rightarrow> BitsetView
     \<Rightarrow> fault + DataSet expected" where
  "Search E node dataset cfg bitset =
     (case index_ptr node of
        None \<Rightarrow> Inr (Inl (empty_index, ''index not loaded''))
      | Some idx \<Rightarrow>
          (let nq = rows dataset;
               x = tensor dataset;
               len = k cfg * nq;
               I0 = replicate len (0 :: int64_t);
               D0 = replicate len (0 :: float)
           in case search E idx nq x (k cfg) bitset of
                Inl what \<Rightarrow> Inr (Inl (faiss_inner_error, what))
              | Inr (D, I) \<Rightarrow>
                  (case store D0 0 D of
                     Inl f \<Rightarrow> Inl f
                   | Inr dis' \<Rightarrow>
                       (case store I0 0 I of
                          Inl f \<Rightarrow> Inl f
                        | Inr ids' \<Rightarrow> Inr (Inr (GenResultDataSet nq (k cfg) ids' dis'))))))"

text \<open>
  The loop of \<open>GetVectorByIds\<close>: \<open>for (i = 0; i < nq; i++) { id = in_ids[i];
  index_->reconstruct(id, xq + i * dim); }\<close>, inside the \<open>try\<close> block.
\<close>

function GetVectorByIds_loop ::
  "('idx, 'm) externals \<Rightarrow> 'idx option \<Rightarrow> int64_t list \<Rightarrow> nat \<Rightarrow> nat \<Rightarrow> nat \<Rightarrow> float list
     \<Rightarrow> fault + (string + float list)" where
  "GetVectorByIds_loop E index in_ids d nq i xq =
     (if i < nq then
        (if length in_ids \<le> i then Inl out_of_bounds
         else
           (case index of
              None \<Rightarrow> Inl null_dereference
            | Some idx \<Rightarrow>
                (case reconstruct E idx (in_ids ! i) of
                   Inl what \<Rightarrow> Inr (Inl what)
                 | Inr v \<Rightarrow>
                     (case store xq (i * d) v of
                        Inl f \<Rightarrow> Inl f
                      | Inr xq' \<Rightarrow> GetVectorByIds_loop E index in_ids d nq (Suc i) xq'))))
      else Inr (Inr xq))"
  by pat_completeness auto
termination
  by (relation "measure (\<lambda>(E, index, in_ids, d, nq, i, xq). nq - i)") auto

definition GetVectorByIds ::
  "('idx, 'm) externals \<Rightarrow> 'idx GpuFlatIndexNode \<Rightarrow> DataSet \<Rightarrow> fault + DataSet expected" where
  "GetVectorByIds E node dataset =
     (let nq = rows dataset;
          d = dim dataset;
          in_ids = ids dataset;
          xq = replicate (nq * d) (0 :: float)
      in case GetVectorByIds_loop E (index_ptr node) in_ids d nq 0 xq of
           Inl f \<Rightarrow> Inl f
         | Inr (Inl what) \<Rightarrow> Inr (Inl (faiss_inner_error, what))
         | Inr (Inr xq') \<Rightarrow> Inr (Inr (GenResultDataSet_tensor xq')))"

definition Serialize ::
  "('idx, 'm) externals \<Rightarrow> 'idx GpuFlatIndexNode \<Rightarrow> BinarySet \<Rightarrow> Status \<times> BinarySet" where
  "Serialize E node binset =
     (case index_ptr node of
        None \<Rightarrow> (empty_index, binset)
      | Some idx \<Rightarrow>
          (case write_index E idx of
             Inl what \<Rightarrow> (faiss_inner_error, binset)
           | Inr data \<Rightarrow> (success, Append binset (Type E) data)))"

definition Deserialize ::
  "('idx, 'm) externals \<Rightarrow> 'idx GpuFlatIndexNode \<Rightarrow> BinarySet
     \<Rightarrow> Status \<times> 'idx GpuFlatIndexNode" where
  "Deserialize E node binset =
     (case GetByName binset (Type E) of
        None \<Rightarrow> (invalid_binary_set, node)
      | Some binary \<Rightarrow>
          (case read_index E binary of
             Inl what \<Rightarrow> (faiss_inner_error, node)
           | Inr index \<Rightarrow>
               (let gpu_res = GetRes E
                in case index_cpu_to_gpu E (faiss_res gpu_res) (gpu_id gpu_res) index of
                     Inl what \<Rightarrow> (faiss_inner_error, node)
                   | Inr gpu_index \<Rightarrow>
                       (success, node\<lparr>index_ptr := Some gpu_index, res_ptr := Some gpu_res\<rparr>))))"

section \<open>The graph index (knowhere/index/vector_index/impl/nsg)\<close>

text \<open>
  NSGIO.h declares \<open>write_index(NsgIndex*, MemoryIOWriter&)\<close> and
  \<open>read_index(MemoryIOReader&)\<close> in the namespace \<open>impl\<close>; their bodies, \<open>NsgIndex\<close> itself
  and its \<open>Build\<close> are not among the source files. They are modelled from the
  specification, sections 3, 4.3 and 4.4.
\<close>

text \<open>
  Modelled from the spec: the error kinds of section 7 that \<open>Build\<close> and \<open>Deserialize\<close> of
  the graph index fail with; their bodies are not among the source files.
\<close>

datatype nsg_error = InvalidParameter | InvalidBinarySet

text \<open>
  Modelled from the spec: the Graph Index of section 3, as far as it is persisted: the
  maximum out-degree \<open>R\<close>, the navigation node id and, for each node in id order, its
  ordered list of neighbour ids. The vector count \<open>n\<close> is the number of lists.
\<close>

record NsgIndex =
  out_degree :: nat
  navigation :: nat
  nbrs :: "nat list list"

text \<open>Modelled from the spec: the vector count \<open>n\<close> of a Graph Index (section 3).\<close>

definition node_count :: "NsgIndex \<Rightarrow> nat" where
  "node_count g = length (nbrs g)"

text \<open>
  Modelled from the spec: what section 4.4 tells \<open>Deserialize\<close> to validate, that the
  navigation node id and every neighbour id are below \<open>n\<close>.
\<close>

definition ids_in_range :: "NsgIndex \<Rightarrow> bool" where
  "ids_in_range g \<longleftrightarrow>
     navigation g < node_count g \<and> list_all (list_all (\<lambda>v. v < node_count g)) (nbrs g)"

subsection \<open>Persistence\<close>

text \<open>
  Modelled from the spec: a node's section of the format of section 4.4, the neighbour
  count followed by that many neighbour ids. The stream is the sequence of integer
  fields; the spec does not fix how many bytes a field takes.
\<close>

definition write_node :: "nat list \<Rightarrow> nat list" where
  "write_node ns = length ns # ns"

text \<open>
  Modelled from the spec: \<open>impl::write_index\<close>, with the fixed field order of section 4.4:
  out-degree, node count, navigation node id, then the nodes in id order.
\<close>

definition impl_write_index :: "NsgIndex \<Rightarrow> nat list" where
  "impl_write_index g =
     out_degree g # node_count g # navigation g # concat (map write_node (nbrs g))"

text \<open>
  Modelled from the spec: reading \<open>c\<close> node sections with the reader's cursor at \<open>s\<close>. A
  count that runs past the end of the buffer and a neighbour id that is not below \<open>n\<close>
  fail with \<open>InvalidBinarySet\<close>.
\<close>

fun read_nodes :: "nat \<Rightarrow> nat \<Rightarrow> nat list \<Rightarrow> nsg_error + nat list list" where
  "read_nodes n 0 s = Inr []"
| "read_nodes n (Suc c) [] = Inl InvalidBinarySet"
| "read_nodes n (Suc c) (cnt # s) =
     (if length s < cnt then Inl InvalidBinarySet
      else if list_ex (\<lambda>v. n \<le> v) (take cnt s) then Inl InvalidBinarySet
      else (case read_nodes n c (drop cnt s) of
              Inl e \<Rightarrow> Inl e
            | Inr rest \<Rightarrow> Inr (take cnt s # rest)))"

text \<open>
  Modelled from the spec: \<open>impl::read_index\<close>. It reads the fields in the order they were
  written and validates that the navigation node id is below \<open>n\<close>.
\<close>

definition impl_read_index :: "nat list \<Rightarrow> nsg_error + NsgIndex" where
  "impl_read_index s =
     (case s of
        R # n # nav # s' \<Rightarrow>
          (if n \<le> nav then Inl InvalidBinarySet
           else (case read_nodes n n s' of
                   Inl e \<Rightarrow> Inl e
                 | Inr adj \<Rightarrow> Inr \<lparr>out_degree = R, navigation = nav, nbrs = adj\<rparr>))
      | _ \<Rightarrow> Inl InvalidBinarySet)"

subsection \<open>Build: the connectivity repair\<close>

text \<open>
  Modelled from the spec: the traversal of step 4 of Build, depth-first from the
  navigation node over the directed edges. \<open>stack\<close> holds the nodes still to visit and
  \<open>seen\<close> those visited.
\<close>

function traverse :: "nat list list \<Rightarrow> nat list \<Rightarrow> nat list \<Rightarrow> nat list" where
  "traverse adj [] seen = seen"
| "traverse adj (u # stack) seen =
     (if u \<in> set seen \<or> length adj \<le> u then traverse adj stack seen
      else traverse adj (adj ! u @ stack) (u # seen))"
  by pat_completeness auto
termination
proof (relation "measures [\<lambda>(adj, stack, seen). card ({..<length adj} - set seen),
                          \<lambda>(adj, stack, seen). length stack]")
  fix adj :: "nat list list" and u :: nat and stack seen :: "nat list"
  assume fresh: "\<not> (u \<in> set seen \<or> length adj \<le> u)"
  have "{..<length adj} - set (u # seen) \<subset> {..<length adj} - set seen"
  proof
    show "{..<length adj} - set (u # seen) \<subseteq> {..<length adj} - set seen"
      by auto
    from fresh have "u \<in> {..<length adj} - set seen" "u \<notin> {..<length adj} - set (u # seen)"
      by auto
    then show "{..<length adj} - set (u # seen) \<noteq> {..<length adj} - set seen"
      by metis
  qed
  moreover have "finite ({..<length adj} - set seen)"
    by (rule finite_Diff) (rule finite_lessThan)
  ultimately have "card ({..<length adj} - set (u # seen)) < card ({..<length adj} - set seen)"
    by (rule psubset_card_mono [rotated])
  then show "((adj, adj ! u @ stack, u # seen), (adj, u # stack, seen))
          \<in> measures [\<lambda>(adj, stack, seen). card ({..<length adj} - set seen),
                      \<lambda>(adj, stack, seen). length stack]"
    by (simp only: in_measures prod.case simp_thms)
qed simp_all

declare traverse.simps [simp del]

text \<open>
  Modelled from the spec: what the connectivity property of section 8 speaks of, that
  \<open>v\<close> is reachable from \<open>nav\<close> by following directed edges of the graph.
\<close>

inductive reachable :: "nat list list \<Rightarrow> nat \<Rightarrow> nat \<Rightarrow> bool"
  for adj :: "nat list list" and nav :: nat where
  start: "reachable adj nav nav"
| edge: "reachable adj nav u \<Longrightarrow> u < length adj \<Longrightarrow> v \<in> set (adj ! u) \<Longrightarrow> reachable adj nav v"

text \<open>
  Modelled from the spec: the nodes that the traversal from the navigation node does
  not reach, in id order.
\<close>

definition unreached :: "nat list list \<Rightarrow> nat \<Rightarrow> nat list" where
  "unreached adj nav = filter (\<lambda>v. v \<notin> set (traverse adj [nav] [])) [0..<length adj]"

text \<open>
  Modelled from the spec: a node's currently weakest edge is the one to its farthest
  neighbour, the first such one in its list. The distance between two nodes is a
  parameter \<open>dist\<close> into a linear order: no claim depends on the floating point
  arithmetic of the metric.
\<close>

definition farthest :: "(nat \<Rightarrow> 'd::linorder) \<Rightarrow> nat \<Rightarrow> nat list \<Rightarrow> nat" where
  "farthest f x xs = fold (\<lambda>y m. if f m < f y then y else m) xs x"

text \<open>Modelled from the spec: evicting the weakest edge of the node \<open>p\<close>.\<close>

definition evict_weakest :: "(nat \<Rightarrow> nat \<Rightarrow> 'd::linorder) \<Rightarrow> nat \<Rightarrow> nat list \<Rightarrow> nat list" where
  "evict_weakest dist p ns =
     (case ns of [] \<Rightarrow> [] | x # xs \<Rightarrow> remove1 (farthest (dist p) x xs) ns)"

text \<open>
  Modelled from the spec: adding the edge from \<open>p\<close> to \<open>u\<close>, respecting the cap \<open>R\<close> by
  evicting the weakest edge of \<open>p\<close> if its list is full.
\<close>

definition add_edge ::
  "(nat \<Rightarrow> nat \<Rightarrow> 'd::linorder) \<Rightarrow> nat \<Rightarrow> nat \<Rightarrow> nat \<Rightarrow> nat list \<Rightarrow> nat list" where
  "add_edge dist R p u ns =
     (if length ns < R then ns @ [u] else evict_weakest dist p ns @ [u])"

text \<open>
  Modelled from the spec: linking the node \<open>u\<close>, which was not reached, to the nearest
  node \<open>p\<close> among those reached.
\<close>

definition link ::
  "(nat \<Rightarrow> nat \<Rightarrow> 'd::linorder) \<Rightarrow> nat \<Rightarrow> nat list \<Rightarrow> nat \<Rightarrow> nat list list \<Rightarrow> nat list list" where
  "link dist R reached u adj =
     (case reached of
        [] \<Rightarrow> adj
      | r # rs \<Rightarrow>
          (let p = arg_min_list (dist u) (r # rs)
           in adj[p := add_edge dist R p u (adj ! p)]))"

text \<open>
  Modelled from the spec: step 4 of Build. Run the traversal, link every node that was
  not reached, and repeat until every node is reached. An eviction can cut off a node
  that was reached before, so nothing bounds the number of rounds: a repair that never
  ends is \<open>None\<close>.
\<close>

partial_function (option) repair_connectivity ::
  "(nat \<Rightarrow> nat \<Rightarrow> 'd::linorder) \<Rightarrow> nat \<Rightarrow> nat \<Rightarrow> nat list list \<Rightarrow> nat list list option" where
  "repair_connectivity dist R nav adj =
     (if unreached adj nav = [] then Some adj
      else repair_connectivity dist R nav
             (fold (link dist R (traverse adj [nav] [])) (unreached adj nav) adj))"

declare repair_connectivity.simps [code]

text \<open>
  Modelled from the spec: \<open>Build\<close>. Steps 1 to 3 (the centroid, the candidate pools and
  the angle-based pruning) compute with floating point numbers and only choose what
  step 4 starts from; their outcome, the navigation node \<open>nav\<close> and the pruned neighbour
  lists \<open>pruned\<close>, is the input here. An out-degree that is not positive fails with
  \<open>InvalidParameter\<close>.
\<close>

definition Build ::
  "(nat \<Rightarrow> nat \<Rightarrow> 'd::linorder) \<Rightarrow> nat \<Rightarrow> nat \<Rightarrow> nat list list
     \<Rightarrow> (nsg_error + NsgIndex) option" where
  "Build dist R nav pruned =
     (if R = 0 then Some (Inl InvalidParameter)
      else map_option (\<lambda>adj. Inr \<lparr>out_degree = R, navigation = nav, nbrs = adj\<rparr>)
             (repair_connectivity dist R nav pruned))"

section \<open>Concrete inputs\<close>

subsection \<open>A stand-in for the library\<close>

text \<open>
  The theorems below hold for every library. To run the node on a concrete input a
  library is needed, and this is the smallest one: an index is the byte image it is
  written as, reading fails on an empty buffer, and searching fails for \<open>k = 0\<close> and
  otherwise fills every slot with id \<open>-1\<close>.
\<close>

definition stub_search ::
  "byte list \<Rightarrow> nat \<Rightarrow> float list \<Rightarrow> nat \<Rightarrow> BitsetView \<Rightarrow> string + (float list \<times> int64_t list)" where
  "stub_search idx nq x topk bitset =
     (if topk = 0 then Inl ''k > 0''
      else Inr (replicate (nq * topk) 0, replicate (nq * topk) (- 1)))"

definition stub_externals :: "(byte list, nat) externals" where
  "stub_externals =
     \<lparr>INDEX_FAISS_GPU_IDMAP = ''GPU_FAISS_FLAT'',
      metric_map = [''L2'' \<mapsto> 1, ''IP'' \<mapsto> 0],
      IndexFlat = (\<lambda>d m. [word_of_nat d, word_of_nat m]),
      search = stub_search,
      reconstruct = (\<lambda>idx i. Inl ''not supported''),
      write_index = (\<lambda>idx. Inr idx),
      read_index = (\<lambda>bytes. if bytes = [] then Inl ''read error'' else Inr bytes),
      index_cpu_to_gpu = (\<lambda>res dev idx. Inr idx),
      GetRes = \<lparr>faiss_res = 0, gpu_id = 0\<rparr>\<rparr>"


section \<open>Properties of the GPU flat index node\<close>

subsection \<open>Arrays\<close>

lemma length_store: "store buf off vals = Inr buf' \<Longrightarrow> length buf' = length buf"
  by (auto simp: store_def split: if_splits)

lemma store_prefix: "store buf 0 vals = Inr buf' \<Longrightarrow> take (length vals) buf' = vals"
  by (auto simp: store_def split: if_splits)

text \<open>
  What a \<open>Search\<close> that returns a result has done: the index was there, the library's
  search succeeded, and its values went into two arrays of \<open>k * nq\<close> slots.
\<close>

lemma Search_result:
  assumes "Search E node dataset cfg bitset = Inr (Inr result)"
  obtains idx D I dis1 ids1 where
    "index_ptr node = Some idx"
    "search E idx (rows dataset) (tensor dataset) (k cfg) bitset = Inr (D, I)"
    "store (replicate (k cfg * rows dataset) 0) 0 D = Inr dis1"
    "store (replicate (k cfg * rows dataset) 0) 0 I = Inr ids1"
    "result = GenResultDataSet (rows dataset) (k cfg) ids1 dis1"
proof -
  from assms obtain idx where idx: "index_ptr node = Some idx"
    by (cases "index_ptr node") (auto simp: Search_def)
  from assms idx obtain D I where
    DI: "search E idx (rows dataset) (tensor dataset) (k cfg) bitset = Inr (D, I)"
    by (cases "search E idx (rows dataset) (tensor dataset) (k cfg) bitset")
       (auto simp: Search_def)
  from assms idx DI obtain dis1 ids1 where
    "store (replicate (k cfg * rows dataset) 0) 0 D = Inr dis1"
    "store (replicate (k cfg * rows dataset) 0) 0 I = Inr ids1"
    "result = GenResultDataSet (rows dataset) (k cfg) ids1 dis1"
    by (auto simp: Search_def Let_def split: sum.splits)
  with idx DI that show thesis by blast
qed

subsection \<open>Search\<close>

text \<open>
  C5. A \<open>Search\<close> on a node whose \<open>index_\<close> is null (nothing was trained or loaded) returns
  the \<open>empty_index\<close> error, whatever the queries, the configuration and the bitset are.
\<close>

theorem Search_empty_index:
  "index_ptr node = None \<Longrightarrow>
   Search E node dataset cfg bitset = Inr (Inl (empty_index, ''index not loaded''))"
  by (simp add: Search_def)

theorem Search_empty_index_witness:
  "index_ptr (new_GpuFlatIndexNode :: byte list GpuFlatIndexNode) = None \<and>
   Search stub_externals new_GpuFlatIndexNode
     \<lparr>rows = 1, dim = 2, tensor = [0, 0], ids = [], distance = []\<rparr>
     \<lparr>metric_type = ''L2'', k = 3\<rparr> [] = Inr (Inl (empty_index, ''index not loaded''))"
  using Search_empty_index [of new_GpuFlatIndexNode stub_externals]
  by (simp add: new_GpuFlatIndexNode_def)

text \<open>
  C6. When the library's search fails, \<open>Search\<close> returns the \<open>faiss_inner_error\<close> for the
  whole call and no arrays. When \<open>Search\<close> returns arrays, the library's search has
  succeeded and both arrays have all their \<open>nq * k\<close> slots: there is no result that is
  filled in part. The only other outcome is that of a library that writes past the
  \<open>nq * k\<close> slots it was given.
\<close>

theorem Search_all_or_nothing:
  "(index_ptr node = Some idx \<and>
      search E idx (rows dataset) (tensor dataset) (k cfg) bitset = Inl what
      \<longrightarrow> Search E node dataset cfg bitset = Inr (Inl (faiss_inner_error, what))) \<and>
   (Search E node dataset cfg bitset = Inr (Inr result)
      \<longrightarrow> (\<exists>idx D I. index_ptr node = Some idx \<and>
             search E idx (rows dataset) (tensor dataset) (k cfg) bitset = Inr (D, I)) \<and>
          length (ids result) = rows dataset * k cfg \<and>
          length (distance result) = rows dataset * k cfg) \<and>
   (Search E node dataset cfg bitset = Inl f
      \<longrightarrow> (\<exists>idx D I. index_ptr node = Some idx \<and>
             search E idx (rows dataset) (tensor dataset) (k cfg) bitset = Inr (D, I) \<and>
             (rows dataset * k cfg < length D \<or> rows dataset * k cfg < length I)))"
proof (intro conjI impI)
  assume o: "Search E node dataset cfg bitset = Inl f"
  then obtain idx where idx: "index_ptr node = Some idx"
    by (cases "index_ptr node") (auto simp: Search_def)
  from o idx obtain D I where
    DI: "search E idx (rows dataset) (tensor dataset) (k cfg) bitset = Inr (D, I)"
    by (cases "search E idx (rows dataset) (tensor dataset) (k cfg) bitset")
       (auto simp: Search_def)
  from o idx DI have "rows dataset * k cfg < length D \<or> rows dataset * k cfg < length I"
    by (auto simp: Search_def Let_def store_def mult.commute split: sum.splits if_splits)
  with idx DI show "\<exists>idx D I. index_ptr node = Some idx \<and>
             search E idx (rows dataset) (tensor dataset) (k cfg) bitset = Inr (D, I) \<and>
             (rows dataset * k cfg < length D \<or> rows dataset * k cfg < length I)"
    by blast
next
  assume "index_ptr node = Some idx \<and>
      search E idx (rows dataset) (tensor dataset) (k cfg) bitset = Inl what"
  then show "Search E node dataset cfg bitset = Inr (Inl (faiss_inner_error, what))"
    by (simp add: Search_def)
next
  assume r: "Search E node dataset cfg bitset = Inr (Inr result)"
  from r show "\<exists>idx D I. index_ptr node = Some idx \<and>
             search E idx (rows dataset) (tensor dataset) (k cfg) bitset = Inr (D, I)"
    by (rule Search_result) blast
  from r show "length (ids result) = rows dataset * k cfg"
    by (rule Search_result)
       (auto simp: GenResultDataSet_def dest!: length_store simp: mult.commute)
  from r show "length (distance result) = rows dataset * k cfg"
    by (rule Search_result)
       (auto simp: GenResultDataSet_def dest!: length_store simp: mult.commute)
qed

theorem Search_all_or_nothing_witness:
  "Search stub_externals \<lparr>res_ptr = None, index_ptr = Some [2, 1]\<rparr>
     \<lparr>rows = 2, dim = 1, tensor = [0, 0], ids = [], distance = []\<rparr>
     \<lparr>metric_type = ''L2'', k = 0\<rparr> [] = Inr (Inl (faiss_inner_error, ''k > 0'')) \<and>
   Search stub_externals \<lparr>res_ptr = None, index_ptr = Some [2, 1]\<rparr>
     \<lparr>rows = 2, dim = 1, tensor = [0, 0], ids = [], distance = []\<rparr>
     \<lparr>metric_type = ''L2'', k = 3\<rparr> [] =
     Inr (Inr \<lparr>rows = 2, dim = 3, tensor = [], ids = [- 1, - 1, - 1, - 1, - 1, - 1],
               distance = [0, 0, 0, 0, 0, 0]\<rparr>) \<and>
   length [- 1, - 1, - 1, - 1, - 1, - 1 :: int64_t] = 2 * 3"
proof -
  have s: "Search stub_externals \<lparr>res_ptr = None, index_ptr = Some [2, 1]\<rparr>
     \<lparr>rows = 2, dim = 1, tensor = [0, 0], ids = [], distance = []\<rparr>
     \<lparr>metric_type = ''L2'', k = 3\<rparr> [] =
     Inr (Inr \<lparr>rows = 2, dim = 3, tensor = [], ids = [- 1, - 1, - 1, - 1, - 1, - 1],
               distance = [0, 0, 0, 0, 0, 0]\<rparr>)"
    by (simp add: Search_def stub_externals_def stub_search_def store_def GenResultDataSet_def
        empty_DataSet_def numeral_eq_Suc)
  have f: "Search stub_externals \<lparr>res_ptr = None, index_ptr = Some [2, 1]\<rparr>
     \<lparr>rows = 2, dim = 1, tensor = [0, 0], ids = [], distance = []\<rparr>
     \<lparr>metric_type = ''L2'', k = 0\<rparr> [] = Inr (Inl (faiss_inner_error, ''k > 0''))"
    using Search_all_or_nothing [of "\<lparr>res_ptr = None, index_ptr = Some [2, 1]\<rparr>" "[2, 1]"
        stub_externals "\<lparr>rows = 2, dim = 1, tensor = [0, 0], ids = [], distance = []\<rparr>"
        "\<lparr>metric_type = ''L2'', k = 0\<rparr>" "[]" "''k > 0''"]
    by (simp add: stub_externals_def stub_search_def)
  from Search_all_or_nothing [where node = "\<lparr>res_ptr = None, index_ptr = Some [2, 1]\<rparr>"
        and E = stub_externals
        and dataset = "\<lparr>rows = 2, dim = 1, tensor = [0, 0], ids = [], distance = []\<rparr>"
        and cfg = "\<lparr>metric_type = ''L2'', k = 3\<rparr>" and bitset = "[]"
        and result = "\<lparr>rows = 2, dim = 3, tensor = [], ids = [- 1, - 1, - 1, - 1, - 1, - 1],
               distance = [0, 0, 0, 0, 0, 0]\<rparr>"] s
  have "length [- 1, - 1, - 1, - 1, - 1, - 1 :: int64_t] = 2 * 3"
    by simp
  with f s show ?thesis by simp
qed

text \<open>
  C9. A successful \<open>Search\<close> over \<open>nq\<close> queries asking for \<open>k\<close> neighbours each returns
  \<open>nq\<close> rows of \<open>k\<close> entries as two parallel flat arrays of length \<open>nq * k\<close>, the ids and
  the distances. They hold what the library wrote, in its order, and entry \<open>j\<close> of
  query \<open>q\<close> has the slot \<open>q * k + j\<close> in both.
\<close>

theorem Search_result_layout:
  assumes "Search E node dataset cfg bitset = Inr (Inr result)"
  shows "rows result = rows dataset \<and> dim result = k cfg \<and>
         length (ids result) = rows dataset * k cfg \<and>
         length (distance result) = rows dataset * k cfg \<and>
         (\<forall>q < rows result. \<forall>j < dim result.
            q * dim result + j < length (ids result) \<and>
            q * dim result + j < length (distance result)) \<and>
         (\<exists>idx D I. index_ptr node = Some idx \<and>
            search E idx (rows dataset) (tensor dataset) (k cfg) bitset = Inr (D, I) \<and>
            take (length I) (ids result) = I \<and> take (length D) (distance result) = D)"
proof -
  from assms obtain idx D I dis1 ids1 where
    idx: "index_ptr node = Some idx"
      "search E idx (rows dataset) (tensor dataset) (k cfg) bitset = Inr (D, I)"
    and s: "store (replicate (k cfg * rows dataset) 0) 0 D = Inr dis1"
      "store (replicate (k cfg * rows dataset) 0) 0 I = Inr ids1"
    and r: "result = GenResultDataSet (rows dataset) (k cfg) ids1 dis1"
    by (rule Search_result)
  have l: "length ids1 = rows dataset * k cfg" "length dis1 = rows dataset * k cfg"
    using s by (auto dest!: length_store simp: mult.commute)
  have slot: "q * k cfg + j < rows dataset * k cfg" if "q < rows dataset" "j < k cfg" for q j
  proof -
    from that have "q * k cfg + j < q * k cfg + k cfg" by simp
    also have "\<dots> = Suc q * k cfg" by simp
    also from that have "\<dots> \<le> rows dataset * k cfg"
      by (intro mult_le_mono1) simp
    finally show ?thesis .
  qed
  have w: "take (length I) ids1 = I" "take (length D) dis1 = D"
    using s by (auto dest: store_prefix)
  from idx w have "\<exists>idx D I. index_ptr node = Some idx \<and>
            search E idx (rows dataset) (tensor dataset) (k cfg) bitset = Inr (D, I) \<and>
            take (length I) ids1 = I \<and> take (length D) dis1 = D"
    by blast
  with l slot show ?thesis
    by (simp add: r GenResultDataSet_def empty_DataSet_def)
qed

theorem Search_result_layout_witness:
  "Search stub_externals \<lparr>res_ptr = None, index_ptr = Some [2, 1]\<rparr>
     \<lparr>rows = 3, dim = 1, tensor = [0, 0, 0], ids = [], distance = []\<rparr>
     \<lparr>metric_type = ''L2'', k = 2\<rparr> [] =
     Inr (Inr \<lparr>rows = 3, dim = 2, tensor = [], ids = [- 1, - 1, - 1, - 1, - 1, - 1],
               distance = [0, 0, 0, 0, 0, 0]\<rparr>) \<and>
   length [- 1, - 1, - 1, - 1, - 1, - 1 :: int64_t] = 3 * 2"
proof -
  have s: "Search stub_externals \<lparr>res_ptr = None, index_ptr = Some [2, 1]\<rparr>
     \<lparr>rows = 3, dim = 1, tensor = [0, 0, 0], ids = [], distance = []\<rparr>
     \<lparr>metric_type = ''L2'', k = 2\<rparr> [] =
     Inr (Inr \<lparr>rows = 3, dim = 2, tensor = [], ids = [- 1, - 1, - 1, - 1, - 1, - 1],
               distance = [0, 0, 0, 0, 0, 0]\<rparr>)"
    by (simp add: Search_def stub_externals_def stub_search_def store_def GenResultDataSet_def
        empty_DataSet_def numeral_eq_Suc)
  from Search_result_layout [OF s] show ?thesis using s by simp
qed

subsection \<open>GetVectorByIds\<close>

text \<open>
  C10, as amended. \<open>GetVectorByIds\<close> has no guard for a null \<open>index_\<close>. On a node whose
  \<open>index_\<close> is null, a call with at least one row (and an id array that has its first
  element) dereferences the null pointer in the first round of the loop; a call with
  no rows never enters the loop and returns an empty result. In no case is the
  \<open>empty_index\<close> error returned.
\<close>

theorem GetVectorByIds_no_guard:
  assumes "index_ptr node = None"
  shows "(0 < rows dataset \<and> ids dataset \<noteq> [] \<longrightarrow>
            GetVectorByIds E node dataset = Inl null_dereference) \<and>
         (rows dataset = 0 \<longrightarrow>
            GetVectorByIds E node dataset = Inr (Inr (GenResultDataSet_tensor []))) \<and>
         (\<forall>msg. GetVectorByIds E node dataset \<noteq> Inr (Inl (empty_index, msg)))"
proof (intro conjI impI allI)
  assume "0 < rows dataset \<and> ids dataset \<noteq> []"
  then show "GetVectorByIds E node dataset = Inl null_dereference"
    using assms by (subst GetVectorByIds_def, subst GetVectorByIds_loop.simps) (simp add: Let_def)
next
  assume "rows dataset = 0"
  then show "GetVectorByIds E node dataset = Inr (Inr (GenResultDataSet_tensor []))"
    by (subst GetVectorByIds_def, subst GetVectorByIds_loop.simps) (simp add: Let_def)
next
  fix msg
  show "GetVectorByIds E node dataset \<noteq> Inr (Inl (empty_index, msg))"
    by (simp add: GetVectorByIds_def Let_def split: sum.splits)
qed

theorem GetVectorByIds_no_guard_witness:
  "index_ptr (new_GpuFlatIndexNode :: byte list GpuFlatIndexNode) = None \<and>
   GetVectorByIds stub_externals new_GpuFlatIndexNode
     \<lparr>rows = 1, dim = 2, tensor = [], ids = [7], distance = []\<rparr> = Inl null_dereference"
  using GetVectorByIds_no_guard [of new_GpuFlatIndexNode
          "\<lparr>rows = 1, dim = 2, tensor = [], ids = [7], distance = []\<rparr>" stub_externals]
  by (simp add: new_GpuFlatIndexNode_def)

text \<open>
  C10 as stated fails for a call with no rows: on the node that was never trained it
  returns a result, and \<open>index_\<close> is not dereferenced.
\<close>

theorem GetVectorByIds_no_rows_counterexample:
  "index_ptr (new_GpuFlatIndexNode :: byte list GpuFlatIndexNode) = None \<and>
   GetVectorByIds stub_externals new_GpuFlatIndexNode
     \<lparr>rows = 0, dim = 2, tensor = [], ids = [], distance = []\<rparr> =
     Inr (Inr \<lparr>rows = 0, dim = 0, tensor = [], ids = [], distance = []\<rparr>)"
  by (subst GetVectorByIds_def, subst GetVectorByIds_loop.simps)
     (simp add: new_GpuFlatIndexNode_def GenResultDataSet_tensor_def empty_DataSet_def)

subsection \<open>Train\<close>

text \<open>
  C7. \<open>Train\<close> with a metric that is not supported fails with \<open>invalid_metric_type\<close> and
  leaves the node as it was, so an empty node stays empty. \<open>Train\<close> with a supported
  metric succeeds and the node holds a new flat index of the dataset's dimension.
\<close>

theorem Train_metric:
  "(metric_map E (metric_type cfg) = None \<longrightarrow>
      Train E node dataset cfg = (invalid_metric_type, node)) \<and>
   (metric_map E (metric_type cfg) = Some m \<longrightarrow>
      Train E node dataset cfg =
        (success, node\<lparr>index_ptr := Some (IndexFlat E (dim dataset) m)\<rparr>))"
  by (simp add: Train_def Str2FaissMetricType_def)

theorem Train_metric_witness:
  "Train stub_externals new_GpuFlatIndexNode
     \<lparr>rows = 1, dim = 2, tensor = [0, 0], ids = [], distance = []\<rparr>
     \<lparr>metric_type = ''COSINE'', k = 1\<rparr> = (invalid_metric_type, new_GpuFlatIndexNode) \<and>
   Train stub_externals new_GpuFlatIndexNode
     \<lparr>rows = 1, dim = 2, tensor = [0, 0], ids = [], distance = []\<rparr>
     \<lparr>metric_type = ''L2'', k = 1\<rparr> = (success, \<lparr>res_ptr = None, index_ptr = Some [2, 1]\<rparr>)"
  using Train_metric [of stub_externals "\<lparr>metric_type = ''COSINE'', k = 1\<rparr>" new_GpuFlatIndexNode
          "\<lparr>rows = 1, dim = 2, tensor = [0, 0], ids = [], distance = []\<rparr>"]
        Train_metric [of stub_externals "\<lparr>metric_type = ''L2'', k = 1\<rparr>" new_GpuFlatIndexNode
          "\<lparr>rows = 1, dim = 2, tensor = [0, 0], ids = [], distance = []\<rparr>" 1]
  by (simp add: stub_externals_def new_GpuFlatIndexNode_def)

subsection \<open>Serialize and Deserialize\<close>

text \<open>
  C8. \<open>Serialize\<close> on a node whose \<open>index_\<close> is null fails with \<open>empty_index\<close> and leaves
  the \<open>BinarySet\<close> alone. When it succeeds it has stored exactly one entry, the bytes the
  library wrote, under the name \<open>Type()\<close>; every other entry is as it was.
\<close>

theorem Serialize_entry:
  "(index_ptr node = None \<longrightarrow> Serialize E node binset = (empty_index, binset)) \<and>
   (Serialize E node binset = (success, binset') \<longrightarrow>
      (\<exists>idx data. index_ptr node = Some idx \<and> write_index E idx = Inr data \<and>
         binset' = binset(Type E \<mapsto> data)) \<and>
      dom binset' = insert (Type E) (dom binset) \<and>
      (\<forall>name. name \<noteq> Type E \<longrightarrow> binset' name = binset name))"
proof (intro conjI impI)
  assume "index_ptr node = None"
  then show "Serialize E node binset = (empty_index, binset)"
    by (simp add: Serialize_def)
next
  assume s: "Serialize E node binset = (success, binset')"
  then obtain idx where idx: "index_ptr node = Some idx"
    by (cases "index_ptr node") (auto simp: Serialize_def)
  with s obtain data where data: "write_index E idx = Inr data"
    by (cases "write_index E idx") (auto simp: Serialize_def)
  from s idx data have b: "binset' = binset(Type E \<mapsto> data)"
    by (simp add: Serialize_def Append_def)
  from idx data b show "\<exists>idx data. index_ptr node = Some idx \<and> write_index E idx = Inr data \<and>
         binset' = binset(Type E \<mapsto> data)"
    by blast
  from b show "dom binset' = insert (Type E) (dom binset)"
    by simp
  from b show "\<forall>name. name \<noteq> Type E \<longrightarrow> binset' name = binset name"
    by simp
qed

theorem Serialize_entry_witness:
  "Serialize stub_externals new_GpuFlatIndexNode Map.empty = (empty_index, Map.empty) \<and>
   Serialize stub_externals \<lparr>res_ptr = None, index_ptr = Some [2, 1]\<rparr> Map.empty =
     (success, [''GPU_FAISS_FLAT'' \<mapsto> [2, 1]]) \<and>
   dom [''GPU_FAISS_FLAT'' \<mapsto> [2, 1 :: byte]] = {''GPU_FAISS_FLAT''}"
proof -
  have s: "Serialize stub_externals \<lparr>res_ptr = None, index_ptr = Some [2, 1]\<rparr> Map.empty =
     (success, [''GPU_FAISS_FLAT'' \<mapsto> [2, 1]])"
    by (simp add: Serialize_def stub_externals_def Append_def Type_def)
  have e: "index_ptr (new_GpuFlatIndexNode :: byte list GpuFlatIndexNode) = None"
    by (simp add: new_GpuFlatIndexNode_def)
  from Serialize_entry [of new_GpuFlatIndexNode stub_externals Map.empty] e
  have 1: "Serialize stub_externals new_GpuFlatIndexNode Map.empty = (empty_index, Map.empty)"
    by blast
  from Serialize_entry [of "\<lparr>res_ptr = None, index_ptr = Some [2, 1]\<rparr>" stub_externals Map.empty
         "[''GPU_FAISS_FLAT'' \<mapsto> [2, 1]]"] s
  have 2: "dom [''GPU_FAISS_FLAT'' \<mapsto> [2, 1 :: byte]] = insert (Type stub_externals) (dom Map.empty)"
    by blast
  from 1 s 2 show ?thesis by (simp add: Type_def stub_externals_def)
qed

text \<open>
  C3, as amended. A \<open>Deserialize\<close> or a \<open>Train\<close> that fails leaves the node exactly as it
  was before the call: empty if it was empty, and holding its previous index if it had
  one.
\<close>

theorem failed_call_keeps_state:
  "(fst (Deserialize E node binset) \<noteq> success \<longrightarrow> snd (Deserialize E node binset) = node) \<and>
   (fst (Train E node dataset cfg) \<noteq> success \<longrightarrow> snd (Train E node dataset cfg) = node)"
  by (simp add: Deserialize_def Train_def Str2FaissMetricType_def Let_def
           split: option.splits sum.splits)

theorem failed_call_keeps_state_witness:
  "fst (Deserialize stub_externals new_GpuFlatIndexNode Map.empty) \<noteq> success \<and>
   snd (Deserialize stub_externals new_GpuFlatIndexNode Map.empty) = new_GpuFlatIndexNode \<and>
   fst (Train stub_externals new_GpuFlatIndexNode
          \<lparr>rows = 1, dim = 2, tensor = [0, 0], ids = [], distance = []\<rparr>
          \<lparr>metric_type = ''COSINE'', k = 1\<rparr>) \<noteq> success \<and>
   snd (Train stub_externals new_GpuFlatIndexNode
          \<lparr>rows = 1, dim = 2, tensor = [0, 0], ids = [], distance = []\<rparr>
          \<lparr>metric_type = ''COSINE'', k = 1\<rparr>) = new_GpuFlatIndexNode"
proof -
  have d: "fst (Deserialize stub_externals (new_GpuFlatIndexNode :: byte list GpuFlatIndexNode)
             Map.empty) \<noteq> success"
    by (simp add: Deserialize_def GetByName_def)
  have t: "fst (Train stub_externals (new_GpuFlatIndexNode :: byte list GpuFlatIndexNode)
          \<lparr>rows = 1, dim = 2, tensor = [0, 0], ids = [], distance = []\<rparr>
          \<lparr>metric_type = ''COSINE'', k = 1\<rparr>) \<noteq> success"
    by (simp add: Train_def Str2FaissMetricType_def stub_externals_def)
  from d t failed_call_keeps_state [of stub_externals new_GpuFlatIndexNode Map.empty
         "\<lparr>rows = 1, dim = 2, tensor = [0, 0], ids = [], distance = []\<rparr>"
         "\<lparr>metric_type = ''COSINE'', k = 1\<rparr>"]
  show ?thesis by blast
qed

text \<open>
  C3 as stated fails on a node that was trained: a \<open>Deserialize\<close> of a \<open>BinarySet\<close> without
  the entry fails with \<open>invalid_binary_set\<close>, the node still holds the trained index, and
  a \<open>Search\<close> after it returns a result, not the \<open>empty_index\<close> error.
\<close>

theorem failed_Deserialize_not_Empty_counterexample:
  "Train stub_externals new_GpuFlatIndexNode
     \<lparr>rows = 1, dim = 2, tensor = [0, 0], ids = [], distance = []\<rparr>
     \<lparr>metric_type = ''L2'', k = 1\<rparr> = (success, \<lparr>res_ptr = None, index_ptr = Some [2, 1]\<rparr>) \<and>
   Deserialize stub_externals \<lparr>res_ptr = None, index_ptr = Some [2, 1]\<rparr> Map.empty =
     (invalid_binary_set, \<lparr>res_ptr = None, index_ptr = Some [2, 1]\<rparr>) \<and>
   Search stub_externals \<lparr>res_ptr = None, index_ptr = Some [2, 1]\<rparr>
     \<lparr>rows = 1, dim = 2, tensor = [0, 0], ids = [], distance = []\<rparr>
     \<lparr>metric_type = ''L2'', k = 1\<rparr> [] =
     Inr (Inr \<lparr>rows = 1, dim = 1, tensor = [], ids = [- 1], distance = [0]\<rparr>)"
  by (simp add: Train_def Str2FaissMetricType_def Deserialize_def GetByName_def Search_def
        stub_externals_def stub_search_def store_def GenResultDataSet_def empty_DataSet_def
        new_GpuFlatIndexNode_def)

section \<open>Properties of the graph index\<close>

subsection \<open>Persistence\<close>

lemma written_node: "write_node ns @ s = length ns # ns @ s"
  by (simp add: write_node_def)

lemma read_nodes_written:
  "list_all (list_all (\<lambda>v. v < n)) adj \<Longrightarrow>
   read_nodes n (length adj) (concat (map write_node adj) @ rest) = Inr adj"
proof (induction adj)
  case Nil
  show ?case by simp
next
  case (Cons ns adj)
  from Cons.prems have ns: "\<not> list_ex (\<lambda>v. n \<le> v) ns"
    by (auto simp: list_ex_iff list_all_iff)
  from Cons have "read_nodes n (length adj) (concat (map write_node adj) @ rest) = Inr adj"
    by simp
  with ns show ?case
    by (simp add: written_node)
qed

lemma read_nodes_rejects:
  "\<not> list_all (list_all (\<lambda>v. v < n)) adj \<Longrightarrow>
   read_nodes n (length adj) (concat (map write_node adj) @ rest) = Inl InvalidBinarySet"
proof (induction adj)
  case Nil
  then show ?case by simp
next
  case (Cons ns adj)
  show ?case
  proof (cases "list_all (\<lambda>v. v < n) ns")
    case True
    with Cons.prems have "\<not> list_all (list_all (\<lambda>v. v < n)) adj" by simp
    then have "read_nodes n (length adj) (concat (map write_node adj) @ rest) = Inl InvalidBinarySet"
      by (rule Cons.IH)
    then show ?thesis by (simp add: written_node)
  next
    case False
    then have "list_ex (\<lambda>v. n \<le> v) ns"
      by (auto simp: list_ex_iff list_all_iff not_less)
    then show ?thesis by (simp add: written_node)
  qed
qed

lemma read_nodes_error: "read_nodes n c s = Inl e \<Longrightarrow> e = InvalidBinarySet"
  by (induction n c s rule: read_nodes.induct) (auto split: if_splits sum.splits)

lemma read_nodes_accepts:
  "read_nodes n c s = Inr adj \<Longrightarrow> length adj = c \<and> list_all (list_all (\<lambda>v. v < n)) adj"
proof (induction n c s arbitrary: adj rule: read_nodes.induct)
  case (1 n s)
  then show ?case by simp
next
  case (2 n c)
  then show ?case by simp
next
  case (3 n c cnt s)
  from "3.prems" have a: "\<not> length s < cnt" and b: "\<not> list_ex (\<lambda>v. n \<le> v) (take cnt s)"
    by (auto split: if_splits)
  from "3.prems" a b obtain rest where r: "read_nodes n c (drop cnt s) = Inr rest"
    and adj: "adj = take cnt s # rest"
    by (auto split: sum.splits)
  from "3.IH" [OF a b r] have "length rest = c \<and> list_all (list_all (\<lambda>v. v < n)) rest" .
  moreover from b have "list_all (\<lambda>v. v < n) (take cnt s)"
    by (auto simp: list_ex_iff list_all_iff)
  ultimately show ?case by (simp add: adj)
qed

lemma impl_roundtrip:
  "ids_in_range g \<Longrightarrow> impl_read_index (impl_write_index g) = Inr g"
  using read_nodes_written [of "node_count g" "nbrs g" "[]"]
  by (simp add: ids_in_range_def impl_read_index_def impl_write_index_def node_count_def)

lemma impl_rejects:
  "\<not> ids_in_range g \<Longrightarrow> impl_read_index (impl_write_index g) = Inl InvalidBinarySet"
  using read_nodes_rejects [of "node_count g" "nbrs g" "[]"]
  by (auto simp: ids_in_range_def impl_read_index_def impl_write_index_def node_count_def)

lemma impl_read_accepts: "impl_read_index s = Inr g \<Longrightarrow> ids_in_range g"
  by (auto simp: impl_read_index_def ids_in_range_def node_count_def
           split: list.splits if_splits sum.splits dest: read_nodes_accepts)

lemma impl_read_error: "impl_read_index s = Inl e \<Longrightarrow> e = InvalidBinarySet"
  by (auto simp: impl_read_index_def split: list.splits if_splits sum.splits
           dest: read_nodes_error)

text \<open>A written blob that is cut short anywhere is rejected.\<close>

lemma read_nodes_cut_short:
  "m < length (concat (map write_node adj)) \<Longrightarrow>
   read_nodes n (length adj) (take m (concat (map write_node adj))) = Inl InvalidBinarySet"
proof (induction adj arbitrary: m)
  case Nil
  then show ?case by simp
next
  case (Cons ns adj)
  let ?tail = "concat (map write_node adj)"
  have w: "concat (map write_node (ns # adj)) = length ns # ns @ ?tail"
    by (simp add: write_node_def)
  show ?case
  proof (cases m)
    case 0
    then show ?thesis by simp
  next
    case (Suc m')
    show ?thesis
    proof (cases "m' < length ns")
      case True
      then show ?thesis
        unfolding w Suc by simp
    next
      case False
      then have t: "take m' (ns @ ?tail) = ns @ take (m' - length ns) ?tail"
        by simp
      from Cons.prems have "m < Suc (length ns + length ?tail)"
        unfolding w by simp
      with Suc False have "m' - length ns < length ?tail"
        by linarith
      then have r: "read_nodes n (length adj) (take (m' - length ns) ?tail) = Inl InvalidBinarySet"
        by (rule Cons.IH)
      have "read_nodes n (length (ns # adj)) (take m (length ns # ns @ ?tail)) =
              read_nodes n (Suc (length adj)) (length ns # ns @ take (m' - length ns) ?tail)"
        unfolding Suc by (simp only: take_Suc_Cons t list.size) simp
      also have "\<dots> = Inl InvalidBinarySet"
        using r by simp
      finally show ?thesis
        unfolding w .
    qed
  qed
qed

lemma impl_cut_short:
  assumes "m < length (impl_write_index g)"
  shows "impl_read_index (take m (impl_write_index g)) = Inl InvalidBinarySet"
proof (cases "m < 3")
  case True
  then consider "m = 0" | "m = Suc 0" | "m = Suc (Suc 0)" by linarith
  then show ?thesis
    by cases (simp_all add: impl_read_index_def impl_write_index_def)
next
  case False
  then have m: "m = Suc (Suc (Suc (m - 3)))"
    by simp
  from assms False have "m - 3 < length (concat (map write_node (nbrs g)))"
    by (simp add: impl_write_index_def)
  then have r: "read_nodes (node_count g) (length (nbrs g))
               (take (m - 3) (concat (map write_node (nbrs g)))) = Inl InvalidBinarySet"
    by (rule read_nodes_cut_short)
  have "take m (impl_write_index g) =
          out_degree g # node_count g # navigation g #
            take (m - 3) (concat (map write_node (nbrs g)))"
    by (subst m) (simp add: impl_write_index_def)
  with r show ?thesis
    by (simp add: impl_read_index_def node_count_def)
qed

subsection \<open>The traversal\<close>


lemma traverse_keeps:
  "set seen \<subseteq> set (traverse adj stack seen) \<and>
   (\<forall>u \<in> set stack. u < length adj \<longrightarrow> u \<in> set (traverse adj stack seen))"
proof (induction adj stack seen rule: traverse.induct)
  case (1 adj seen)
  show ?case by (simp add: traverse.simps)
next
  case (2 adj u stack seen)
  show ?case
  proof (cases "u \<in> set seen \<or> length adj \<le> u")
    case True
    with "2.IH"(1) show ?thesis by (auto simp: traverse.simps)
  next
    case False
    with "2.IH"(2) show ?thesis by (auto simp: traverse.simps)
  qed
qed

lemma traverse_closed:
  "\<forall>w \<in> set seen. w < length adj \<longrightarrow>
      (\<forall>v \<in> set (adj ! w). v < length adj \<longrightarrow> v \<in> set seen \<union> set stack) \<Longrightarrow>
   \<forall>w \<in> set (traverse adj stack seen). w < length adj \<longrightarrow>
      (\<forall>v \<in> set (adj ! w). v < length adj \<longrightarrow> v \<in> set (traverse adj stack seen))"
proof (induction adj stack seen rule: traverse.induct)
  case (1 adj seen)
  then show ?case by (simp add: traverse.simps)
next
  case (2 adj u stack seen)
  show ?case
  proof (cases "u \<in> set seen \<or> length adj \<le> u")
    case True
    have "\<forall>w \<in> set seen. w < length adj \<longrightarrow>
      (\<forall>v \<in> set (adj ! w). v < length adj \<longrightarrow> v \<in> set seen \<union> set stack)"
    proof (intro ballI impI)
      fix w v
      assume "w \<in> set seen" "w < length adj" "v \<in> set (adj ! w)" "v < length adj"
      with "2.prems" have "v \<in> set seen \<union> set (u # stack)" by blast
      with True \<open>v < length adj\<close> show "v \<in> set seen \<union> set stack" by auto
    qed
    from "2.IH"(1) [OF True this] True show ?thesis by (simp add: traverse.simps)
  next
    case False
    have "\<forall>w \<in> set (u # seen). w < length adj \<longrightarrow>
      (\<forall>v \<in> set (adj ! w). v < length adj \<longrightarrow> v \<in> set (u # seen) \<union> set (adj ! u @ stack))"
    proof (intro ballI impI)
      fix w v
      assume w: "w \<in> set (u # seen)" "w < length adj" "v \<in> set (adj ! w)" "v < length adj"
      show "v \<in> set (u # seen) \<union> set (adj ! u @ stack)"
      proof (cases "w = u")
        case True
        with w show ?thesis by simp
      next
        case False
        with w have "w \<in> set seen" by simp
        with "2.prems" w have "v \<in> set seen \<union> set (u # stack)" by blast
        then show ?thesis by auto
      qed
    qed
    from "2.IH"(2) [OF False this] False show ?thesis by (simp add: traverse.simps)
  qed
qed

lemma traverse_complete:
  assumes "reachable adj nav v" and "nav < length adj" and "v < length adj"
  shows "v \<in> set (traverse adj [nav] [])"
  using assms(1,3)
proof (induction rule: reachable.induct)
  case start
  from traverse_keeps [of "[]" adj "[nav]"] assms(2) show ?case by simp
next
  case (edge u v)
  from edge have "u \<in> set (traverse adj [nav] [])" by simp
  with traverse_closed [of "[]" adj "[nav]"] edge show ?case by simp
qed

lemma unreached_Nil:
  "unreached adj nav = [] \<longleftrightarrow> (\<forall>v < length adj. v \<in> set (traverse adj [nav] []))"
  by (auto simp: unreached_def filter_empty_conv)

subsection \<open>The repair\<close>

lemma length_link: "length (link dist R reached u adj) = length adj"
  by (simp add: link_def Let_def split: list.splits)

lemma length_fold_link: "length (fold (link dist R reached) us adj) = length adj"
  by (induction us arbitrary: adj) (simp_all add: length_link)

lemma repair_connectivity_result:
  fixes dist :: "nat \<Rightarrow> nat \<Rightarrow> 'd::linorder"
  assumes "repair_connectivity dist R nav adj = Some adj'"
  shows "length adj' = length adj \<and> unreached adj' nav = []"
proof (rule repair_connectivity.raw_induct
    [where P = "\<lambda>(dist :: nat \<Rightarrow> nat \<Rightarrow> 'd) R nav adj adj'.
                  length adj' = length adj \<and> unreached adj' nav = []", OF _ assms])
  fix again and dist :: "nat \<Rightarrow> nat \<Rightarrow> 'd" and R nav adj adj'
  assume IH: "\<And>dist R nav adj adj'. again dist R nav adj = Some adj' \<Longrightarrow>
                length adj' = length adj \<and> unreached adj' nav = []"
    and eq: "(if unreached adj nav = [] then Some adj
              else again dist R nav
                     (fold (link dist R (traverse adj [nav] [])) (unreached adj nav) adj)) =
             Some adj'"
  show "length adj' = length adj \<and> unreached adj' nav = []"
  proof (cases "unreached adj nav = []")
    case True
    with eq show ?thesis by simp
  next
    case False
    with eq have
      "again dist R nav (fold (link dist R (traverse adj [nav] [])) (unreached adj nav) adj) = Some adj'"
      by simp
    from IH [OF this] show ?thesis
      by (simp add: length_fold_link)
  qed
qed

lemma set_evict_weakest: "set (evict_weakest dist p ns) \<subseteq> set ns"
  by (cases ns) (auto simp: evict_weakest_def dest: notin_set_remove1)

lemma set_add_edge: "set (add_edge dist R p u ns) \<subseteq> insert u (set ns)"
  using set_evict_weakest [of dist p ns] by (auto simp: add_edge_def)

lemma link_in_range:
  assumes "list_all (list_all (\<lambda>v. v < n)) adj" and "u < n"
  shows "list_all (list_all (\<lambda>v. v < n)) (link dist R reached u adj)"
proof (cases reached)
  case Nil
  with assms show ?thesis by (simp add: link_def)
next
  case (Cons r rs)
  define p where "p = arg_min_list (dist u) (r # rs)"
  define e where "e = add_edge dist R p u (adj ! p)"
  have "list_all (\<lambda>v. v < n) ns" if "ns \<in> set (adj[p := e])" for ns
  proof (cases "p < length adj")
    case True
    then have "adj ! p \<in> set adj"
      by (rule nth_mem)
    with assms(1) have "list_all (\<lambda>v. v < n) (adj ! p)"
      by (auto simp: list_all_iff)
    with set_add_edge [of dist R p u "adj ! p"] assms(2) have "list_all (\<lambda>v. v < n) e"
      by (auto simp: list_all_iff e_def)
    moreover from that set_update_subset_insert [of adj p e] have "ns = e \<or> ns \<in> set adj"
      by auto
    ultimately show ?thesis
      using assms(1) by (auto simp: list_all_iff)
  next
    case False
    then have "adj[p := e] = adj"
      by (simp add: list_update_beyond)
    with that assms(1) show ?thesis
      by (simp add: list_all_iff)
  qed
  then show ?thesis
    by (simp add: link_def Cons Let_def p_def e_def list_all_iff)
qed

lemma fold_link_in_range:
  "list_all (list_all (\<lambda>v. v < n)) adj \<Longrightarrow> list_all (\<lambda>u. u < n) us \<Longrightarrow>
   list_all (list_all (\<lambda>v. v < n)) (fold (link dist R reached) us adj)"
  by (induction us arbitrary: adj) (simp_all add: link_in_range)

lemma unreached_in_range: "list_all (\<lambda>u. u < length adj) (unreached adj nav)"
  by (simp add: unreached_def list_all_iff)

lemma repair_connectivity_in_range:
  fixes dist :: "nat \<Rightarrow> nat \<Rightarrow> 'd::linorder"
  assumes "repair_connectivity dist R nav adj = Some adj'"
  shows "list_all (list_all (\<lambda>v. v < length adj)) adj \<longrightarrow>
         list_all (list_all (\<lambda>v. v < length adj')) adj'"
proof (rule repair_connectivity.raw_induct
    [where P = "\<lambda>(dist :: nat \<Rightarrow> nat \<Rightarrow> 'd) R nav adj adj'.
                  list_all (list_all (\<lambda>v. v < length adj)) adj \<longrightarrow>
                  list_all (list_all (\<lambda>v. v < length adj')) adj'", OF _ assms])
  fix again and dist :: "nat \<Rightarrow> nat \<Rightarrow> 'd" and R nav adj adj'
  assume IH: "\<And>dist R nav adj adj'. again dist R nav adj = Some adj' \<Longrightarrow>
                list_all (list_all (\<lambda>v. v < length adj)) adj \<longrightarrow>
                list_all (list_all (\<lambda>v. v < length adj')) adj'"
    and eq: "(if unreached adj nav = [] then Some adj
              else again dist R nav
                     (fold (link dist R (traverse adj [nav] [])) (unreached adj nav) adj)) =
             Some adj'"
  show "list_all (list_all (\<lambda>v. v < length adj)) adj \<longrightarrow>
        list_all (list_all (\<lambda>v. v < length adj')) adj'"
  proof (cases "unreached adj nav = []")
    case True
    with eq show ?thesis by simp
  next
    case False
    with eq have
      "again dist R nav (fold (link dist R (traverse adj [nav] [])) (unreached adj nav) adj) = Some adj'"
      by simp
    from IH [OF this] have step:
      "list_all (list_all (\<lambda>v. v < length adj))
         (fold (link dist R (traverse adj [nav] [])) (unreached adj nav) adj) \<longrightarrow>
       list_all (list_all (\<lambda>v. v < length adj')) adj'"
      by (simp add: length_fold_link)
    show ?thesis
    proof
      assume "list_all (list_all (\<lambda>v. v < length adj)) adj"
      then have "list_all (list_all (\<lambda>v. v < length adj))
         (fold (link dist R (traverse adj [nav] [])) (unreached adj nav) adj)"
        using unreached_in_range by (rule fold_link_in_range)
      with step show "list_all (list_all (\<lambda>v. v < length adj')) adj'" by simp
    qed
  qed
qed

text \<open>The repair respects the cap: no neighbour list grows beyond \<open>R\<close>.\<close>

lemma farthest_in: "farthest f x xs \<in> insert x (set xs)"
proof (induction xs arbitrary: x)
  case Nil
  show ?case by (simp add: farthest_def)
next
  case (Cons y ys)
  have "farthest f x (y # ys) = farthest f (if f x < f y then y else x) ys"
    by (simp add: farthest_def)
  with Cons [of "if f x < f y then y else x"] show ?case
    by (auto split: if_splits)
qed

lemma length_evict_weakest:
  assumes "ns \<noteq> []"
  shows "Suc (length (evict_weakest dist p ns)) = length ns"
proof (cases ns)
  case Nil
  with assms show ?thesis by simp
next
  case (Cons x xs)
  from farthest_in [of "dist p" x xs] have "farthest (dist p) x xs \<in> set ns"
    by (simp add: Cons)
  then have "length (remove1 (farthest (dist p) x xs) ns) = length ns - 1"
    by (simp add: length_remove1)
  with Cons show ?thesis
    by (simp add: evict_weakest_def)
qed

lemma add_edge_cap:
  assumes "0 < R" and "length ns \<le> R"
  shows "length (add_edge dist R p u ns) \<le> R"
proof (cases "length ns < R")
  case True
  then show ?thesis by (simp add: add_edge_def)
next
  case False
  with assms have "ns \<noteq> []" by auto
  from length_evict_weakest [OF this, of dist p] False assms show ?thesis
    by (simp add: add_edge_def)
qed

lemma link_cap:
  assumes "0 < R" and "list_all (\<lambda>ns. length ns \<le> R) adj"
  shows "list_all (\<lambda>ns. length ns \<le> R) (link dist R reached u adj)"
proof (cases reached)
  case Nil
  with assms show ?thesis by (simp add: link_def)
next
  case (Cons r rs)
  define p where "p = arg_min_list (dist u) (r # rs)"
  define e where "e = add_edge dist R p u (adj ! p)"
  have "length ns \<le> R" if "ns \<in> set (adj[p := e])" for ns
  proof (cases "p < length adj")
    case True
    then have "adj ! p \<in> set adj"
      by (rule nth_mem)
    with assms(2) have "length (adj ! p) \<le> R"
      by (auto simp: list_all_iff)
    with assms(1) have "length e \<le> R"
      unfolding e_def by (rule add_edge_cap)
    moreover from that set_update_subset_insert [of adj p e] have "ns = e \<or> ns \<in> set adj"
      by auto
    ultimately show ?thesis
      using assms(2) by (auto simp: list_all_iff)
  next
    case False
    then have "adj[p := e] = adj"
      by (simp add: list_update_beyond)
    with that assms(2) show ?thesis
      by (simp add: list_all_iff)
  qed
  then show ?thesis
    by (simp add: link_def Cons Let_def p_def e_def list_all_iff)
qed

lemma fold_link_cap:
  "0 < R \<Longrightarrow> list_all (\<lambda>ns. length ns \<le> R) adj \<Longrightarrow>
   list_all (\<lambda>ns. length ns \<le> R) (fold (link dist R reached) us adj)"
  by (induction us arbitrary: adj) (simp_all add: link_cap)

lemma repair_connectivity_cap:
  fixes dist :: "nat \<Rightarrow> nat \<Rightarrow> 'd::linorder"
  assumes "repair_connectivity dist R nav adj = Some adj'"
  shows "0 < R \<and> list_all (\<lambda>ns. length ns \<le> R) adj \<longrightarrow>
         list_all (\<lambda>ns. length ns \<le> R) adj'"
proof (rule repair_connectivity.raw_induct
    [where P = "\<lambda>(dist :: nat \<Rightarrow> nat \<Rightarrow> 'd) R nav adj adj'.
                  0 < R \<and> list_all (\<lambda>ns. length ns \<le> R) adj \<longrightarrow>
                  list_all (\<lambda>ns. length ns \<le> R) adj'", OF _ assms])
  fix again and dist :: "nat \<Rightarrow> nat \<Rightarrow> 'd" and R nav adj adj'
  assume IH: "\<And>dist R nav adj adj'. again dist R nav adj = Some adj' \<Longrightarrow>
                0 < R \<and> list_all (\<lambda>ns. length ns \<le> R) adj \<longrightarrow>
                list_all (\<lambda>ns. length ns \<le> R) adj'"
    and eq: "(if unreached adj nav = [] then Some adj
              else again dist R nav
                     (fold (link dist R (traverse adj [nav] [])) (unreached adj nav) adj)) =
             Some adj'"
  show "0 < R \<and> list_all (\<lambda>ns. length ns \<le> R) adj \<longrightarrow>
        list_all (\<lambda>ns. length ns \<le> R) adj'"
  proof (cases "unreached adj nav = []")
    case True
    with eq show ?thesis by simp
  next
    case False
    with eq have
      "again dist R nav (fold (link dist R (traverse adj [nav] [])) (unreached adj nav) adj) = Some adj'"
      by simp
    from IH [OF this] show ?thesis
      by (auto intro: fold_link_cap)
  qed
qed

subsection \<open>A repair that needs no eviction\<close>





subsection \<open>A repair that never ends\<close>






subsection \<open>Build\<close>

lemma Build_Inr:
  assumes "Build dist R nav pruned = Some (Inr g)"
  obtains adj where "0 < R" "repair_connectivity dist R nav pruned = Some adj"
    "g = \<lparr>out_degree = R, navigation = nav, nbrs = adj\<rparr>"
proof -
  from assms have R: "R \<noteq> 0"
    by (auto simp: Build_def split: if_splits)
  with assms obtain adj where
    "repair_connectivity dist R nav pruned = Some adj"
    "g = \<lparr>out_degree = R, navigation = nav, nbrs = adj\<rparr>"
    by (auto simp: Build_def)
  with R that show thesis by simp
qed

text \<open>
  A graph that is connected already is what \<open>Build\<close> returns: the repair has nothing to
  link.
\<close>

lemma Build_of_connected:
  assumes "0 < R" and "nav < length pruned"
    and "\<forall>v < length pruned. reachable pruned nav v"
  shows "Build dist R nav pruned =
           Some (Inr \<lparr>out_degree = R, navigation = nav, nbrs = pruned\<rparr>)"
proof -
  from assms(2,3) have "unreached pruned nav = []"
    by (simp add: unreached_Nil traverse_complete)
  then have "repair_connectivity dist R nav pruned = Some pruned"
    by (subst repair_connectivity.simps) simp
  with assms(1) show ?thesis by (simp add: Build_def)
qed

text \<open>
  The ids of a built graph are in range when those of the pruned lists were: a built
  graph is one that \<open>write_index\<close> and \<open>read_index\<close> round-trip.
\<close>

lemma Build_ids_in_range:
  assumes "Build dist R nav pruned = Some (Inr g)" and "pruned \<noteq> []"
    and "list_all (list_all (\<lambda>v. v < length pruned)) pruned"
  shows "ids_in_range g"
proof -
  from assms(1) obtain adj where
    adj: "repair_connectivity dist R nav pruned = Some adj"
    and g: "g = \<lparr>out_degree = R, navigation = nav, nbrs = adj\<rparr>"
    by (rule Build_Inr)
  from repair_connectivity_result [OF adj]
  have len: "length adj = length pruned" and all: "unreached adj nav = []"
    by simp_all
  from len assms(2) all have "0 \<in> set (traverse adj [nav] [])"
    by (simp add: unreached_Nil)
  then have "nav < length adj"
    by (cases "nav < length adj") (auto simp: traverse.simps)
  moreover from repair_connectivity_in_range [OF adj] assms(3)
  have "list_all (list_all (\<lambda>v. v < length adj)) adj"
    by simp
  ultimately show ?thesis
    by (simp add: g ids_in_range_def node_count_def)
qed

lemma Build_degree_bound:
  assumes "Build dist R nav pruned = Some (Inr g)"
    and "list_all (\<lambda>ns. length ns \<le> R) pruned"
  shows "list_all (\<lambda>ns. length ns \<le> out_degree g) (nbrs g)"
proof -
  from assms(1) obtain adj where R: "0 < R"
    and adj: "repair_connectivity dist R nav pruned = Some adj"
    and g: "g = \<lparr>out_degree = R, navigation = nav, nbrs = adj\<rparr>"
    by (rule Build_Inr)
  from repair_connectivity_cap [OF adj] R assms(2) show ?thesis
    by (simp add: g)
qed





section \<open>Persistence of both indexes\<close>

text \<open>
  C2. Reading back what was written restores the graph index: for every graph whose ids
  are in range, as those of a built index are, \<open>read_index\<close> of \<open>write_index\<close> is the
  very same graph, so the navigation node id, the node count and every neighbour list
  (hence every neighbour set) are identical. For the GPU flat node, \<open>Serialize\<close> stores
  the bytes the library wrote under \<open>Type()\<close> and \<open>Deserialize\<close> of that \<open>BinarySet\<close>
  hands the same bytes to the library's reader: the node then holds the GPU copy of the
  index that was read, on the resource it acquired.
\<close>

theorem Serialize_Deserialize_roundtrip:
  "(ids_in_range g \<longrightarrow>
      impl_read_index (impl_write_index g) = Inr g \<and>
      (\<forall>g'. impl_read_index (impl_write_index g) = Inr g' \<longrightarrow>
         navigation g' = navigation g \<and> node_count g' = node_count g \<and>
         (\<forall>i < node_count g. set (nbrs g' ! i) = set (nbrs g ! i)))) \<and>
   (index_ptr node = Some idx \<and> write_index E idx = Inr data \<and>
    read_index E data = Inr idx' \<and>
    index_cpu_to_gpu E (faiss_res (GetRes E)) (gpu_id (GetRes E)) idx' = Inr gpu_index \<longrightarrow>
      Serialize E node binset = (success, Append binset (Type E) data) \<and>
      Deserialize E node' (Append binset (Type E) data) =
        (success, node'\<lparr>index_ptr := Some gpu_index, res_ptr := Some (GetRes E)\<rparr>))"
proof (intro conjI impI)
  assume "ids_in_range g"
  then show r: "impl_read_index (impl_write_index g) = Inr g"
    by (rule impl_roundtrip)
  show "\<forall>g'. impl_read_index (impl_write_index g) = Inr g' \<longrightarrow>
         navigation g' = navigation g \<and> node_count g' = node_count g \<and>
         (\<forall>i < node_count g. set (nbrs g' ! i) = set (nbrs g ! i))"
    by (simp add: r)
next
  assume a: "index_ptr node = Some idx \<and> write_index E idx = Inr data \<and>
    read_index E data = Inr idx' \<and>
    index_cpu_to_gpu E (faiss_res (GetRes E)) (gpu_id (GetRes E)) idx' = Inr gpu_index"
  then show "Serialize E node binset = (success, Append binset (Type E) data)"
    by (simp add: Serialize_def)
  from a show "Deserialize E node' (Append binset (Type E) data) =
        (success, node'\<lparr>index_ptr := Some gpu_index, res_ptr := Some (GetRes E)\<rparr>)"
    by (simp add: Deserialize_def GetByName_def Append_def Let_def)
qed

theorem Serialize_Deserialize_roundtrip_witness:
  "ids_in_range \<lparr>out_degree = 2, navigation = 0, nbrs = [ [1], [2, 3], [3], [2] ]\<rparr> \<and>
   impl_write_index \<lparr>out_degree = 2, navigation = 0, nbrs = [ [1], [2, 3], [3], [2] ]\<rparr> =
     [2, 4, 0, 1, 1, 2, 2, 3, 1, 3, 1, 2] \<and>
   impl_read_index [2, 4, 0, 1, 1, 2, 2, 3, 1, 3, 1, 2] =
     Inr \<lparr>out_degree = 2, navigation = 0, nbrs = [ [1], [2, 3], [3], [2] ]\<rparr> \<and>
   Serialize stub_externals \<lparr>res_ptr = None, index_ptr = Some [2, 1]\<rparr> Map.empty =
     (success, [''GPU_FAISS_FLAT'' \<mapsto> [2, 1]]) \<and>
   Deserialize stub_externals new_GpuFlatIndexNode [''GPU_FAISS_FLAT'' \<mapsto> [2, 1]] =
     (success, \<lparr>res_ptr = Some \<lparr>faiss_res = 0, gpu_id = 0\<rparr>, index_ptr = Some [2, 1]\<rparr>)"
proof -
  have v: "ids_in_range \<lparr>out_degree = 2, navigation = 0, nbrs = [ [1], [2, 3], [3], [2] ]\<rparr>"
    by (simp add: ids_in_range_def node_count_def)
  have w: "impl_write_index \<lparr>out_degree = 2, navigation = 0, nbrs = [ [1], [2, 3], [3], [2] ]\<rparr> =
     [2, 4, 0, 1, 1, 2, 2, 3, 1, 3, 1, 2]"
    by (simp add: impl_write_index_def write_node_def node_count_def)
  have l: "index_ptr \<lparr>res_ptr = None, index_ptr = Some [2, 1 :: byte]\<rparr> = Some [2, 1] \<and>
    write_index stub_externals [2, 1] = Inr [2, 1] \<and>
    read_index stub_externals [2, 1] = Inr [2, 1] \<and>
    index_cpu_to_gpu stub_externals (faiss_res (GetRes stub_externals))
      (gpu_id (GetRes stub_externals)) [2, 1] = Inr [2, 1]"
    by (simp add: stub_externals_def)
  from Serialize_Deserialize_roundtrip
         [of "\<lparr>out_degree = 2, navigation = 0, nbrs = [ [1], [2, 3], [3], [2] ]\<rparr>"
             "\<lparr>res_ptr = None, index_ptr = Some [2, 1]\<rparr>" "[2, 1]" stub_externals "[2, 1]"
             "[2, 1]" "[2, 1]" Map.empty new_GpuFlatIndexNode] v l
  have "impl_read_index (impl_write_index
          \<lparr>out_degree = 2, navigation = 0, nbrs = [ [1], [2, 3], [3], [2] ]\<rparr>) =
          Inr \<lparr>out_degree = 2, navigation = 0, nbrs = [ [1], [2, 3], [3], [2] ]\<rparr>"
    and "Serialize stub_externals \<lparr>res_ptr = None, index_ptr = Some [2, 1]\<rparr> Map.empty =
          (success, Append Map.empty (Type stub_externals) [2, 1])"
    and "Deserialize stub_externals new_GpuFlatIndexNode
           (Append Map.empty (Type stub_externals) [2, 1]) =
          (success, new_GpuFlatIndexNode
             \<lparr>index_ptr := Some [2, 1], res_ptr := Some (GetRes stub_externals)\<rparr>)"
    by blast+
  with v w show ?thesis
    by (simp add: Append_def Type_def stub_externals_def new_GpuFlatIndexNode_def)
qed

text \<open>
  C4, as amended. A \<open>BinarySet\<close> without the entry named \<open>Type()\<close> makes \<open>Deserialize\<close> fail
  with \<open>invalid_binary_set\<close>. When the entry is there and the library's reader throws,
  as it does on a malformed buffer, \<open>Deserialize\<close> fails with \<open>faiss_inner_error\<close>. In both
  cases the node is left as it was. The graph index's reader fails with
  \<open>InvalidBinarySet\<close> on what \<open>write_index\<close> gives for a graph whose navigation node id
  or one of whose neighbour ids is not below \<open>n\<close>, and on every written blob that is cut
  short; on any buffer at all it returns either a graph whose ids are in range or
  \<open>InvalidBinarySet\<close>.
\<close>

theorem Deserialize_rejects:
  "(GetByName binset (Type E) = None \<longrightarrow>
      Deserialize E node binset = (invalid_binary_set, node)) \<and>
   (GetByName binset (Type E) = Some binary \<and> read_index E binary = Inl what \<longrightarrow>
      Deserialize E node binset = (faiss_inner_error, node)) \<and>
   (\<not> ids_in_range g \<longrightarrow> impl_read_index (impl_write_index g) = Inl InvalidBinarySet) \<and>
   (\<forall>g'. impl_read_index s = Inr g' \<longrightarrow> ids_in_range g') \<and>
   (\<forall>e. impl_read_index s = Inl e \<longrightarrow> e = InvalidBinarySet) \<and>
   (m < length (impl_write_index h) \<longrightarrow>
      impl_read_index (take m (impl_write_index h)) = Inl InvalidBinarySet)"
proof (intro conjI impI allI)
  assume "m < length (impl_write_index h)"
  then show "impl_read_index (take m (impl_write_index h)) = Inl InvalidBinarySet"
    by (rule impl_cut_short)
next
  assume "GetByName binset (Type E) = None"
  then show "Deserialize E node binset = (invalid_binary_set, node)"
    by (simp add: Deserialize_def)
next
  assume "GetByName binset (Type E) = Some binary \<and> read_index E binary = Inl what"
  then show "Deserialize E node binset = (faiss_inner_error, node)"
    by (simp add: Deserialize_def)
next
  assume "\<not> ids_in_range g"
  then show "impl_read_index (impl_write_index g) = Inl InvalidBinarySet"
    by (rule impl_rejects)
next
  fix g' assume "impl_read_index s = Inr g'"
  then show "ids_in_range g'" by (rule impl_read_accepts)
next
  fix e assume "impl_read_index s = Inl e"
  then show "e = InvalidBinarySet" by (rule impl_read_error)
qed

theorem Deserialize_rejects_witness:
  "Deserialize stub_externals new_GpuFlatIndexNode [''IVF_FLAT'' \<mapsto> [2, 1]] =
     (invalid_binary_set, new_GpuFlatIndexNode) \<and>
   Deserialize stub_externals new_GpuFlatIndexNode [''GPU_FAISS_FLAT'' \<mapsto> []] =
     (faiss_inner_error, new_GpuFlatIndexNode) \<and>
   impl_write_index \<lparr>out_degree = 2, navigation = 0, nbrs = [ [1], [0, 3], [1] ]\<rparr> =
     [2, 3, 0, 1, 1, 2, 0, 3, 1, 1] \<and>
   impl_read_index [2, 3, 0, 1, 1, 2, 0, 3, 1, 1] = Inl InvalidBinarySet \<and>
   impl_write_index \<lparr>out_degree = 2, navigation = 0, nbrs = [ [1], [0, 2], [1] ]\<rparr> =
     [2, 3, 0, 1, 1, 2, 0, 2, 1, 1] \<and>
   impl_read_index [2, 3, 0, 1, 1, 2, 0, 2, 1] = Inl InvalidBinarySet"
proof -
  have t: "impl_write_index \<lparr>out_degree = 2, navigation = 0, nbrs = [ [1], [0, 2], [1] ]\<rparr> =
     [2, 3, 0, 1, 1, 2, 0, 2, 1, 1]"
    by (simp add: impl_write_index_def write_node_def node_count_def)
  have "9 < length (impl_write_index
                     \<lparr>out_degree = 2, navigation = 0, nbrs = [ [1], [0, 2], [1] ]\<rparr>)"
    unfolding t by simp
  with Deserialize_rejects
         [where h = "\<lparr>out_degree = 2, navigation = 0, nbrs = [ [1], [0, 2], [1] ]\<rparr>" and m = 9]
  have "impl_read_index (take 9 (impl_write_index
          \<lparr>out_degree = 2, navigation = 0, nbrs = [ [1], [0, 2], [1] ]\<rparr>)) = Inl InvalidBinarySet"
    by blast
  then have 4: "impl_read_index [2, 3, 0, 1, 1, 2, 0, 2, 1] = Inl InvalidBinarySet"
    unfolding t by simp
  have a: "GetByName [''IVF_FLAT'' \<mapsto> [2, 1]] (Type stub_externals) = None"
    by (simp add: GetByName_def Type_def stub_externals_def)
  have b: "GetByName [''GPU_FAISS_FLAT'' \<mapsto> []] (Type stub_externals) = Some [] \<and>
           read_index stub_externals [] = Inl ''read error''"
    by (simp add: GetByName_def Type_def stub_externals_def)
  have c: "\<not> ids_in_range \<lparr>out_degree = 2, navigation = 0, nbrs = [ [1], [0, 3], [1] ]\<rparr>"
    by (simp add: ids_in_range_def node_count_def)
  have w: "impl_write_index \<lparr>out_degree = 2, navigation = 0, nbrs = [ [1], [0, 3], [1] ]\<rparr> =
     [2, 3, 0, 1, 1, 2, 0, 3, 1, 1]"
    by (simp add: impl_write_index_def write_node_def node_count_def)
  from Deserialize_rejects [where binset = "[''IVF_FLAT'' \<mapsto> [2, 1]]" and E = stub_externals
         and node = new_GpuFlatIndexNode] a
  have 1: "Deserialize stub_externals new_GpuFlatIndexNode [''IVF_FLAT'' \<mapsto> [2, 1]] =
     (invalid_binary_set, new_GpuFlatIndexNode)"
    by blast
  from Deserialize_rejects [where binset = "[''GPU_FAISS_FLAT'' \<mapsto> []]" and E = stub_externals
         and binary = "[]" and what = "''read error''" and node = new_GpuFlatIndexNode] b
  have 2: "Deserialize stub_externals new_GpuFlatIndexNode [''GPU_FAISS_FLAT'' \<mapsto> []] =
     (faiss_inner_error, new_GpuFlatIndexNode)"
    by blast
  from Deserialize_rejects [where g = "\<lparr>out_degree = 2, navigation = 0, nbrs = [ [1], [0, 3], [1] ]\<rparr>"] c
  have 3: "impl_read_index (impl_write_index
             \<lparr>out_degree = 2, navigation = 0, nbrs = [ [1], [0, 3], [1] ]\<rparr>) = Inl InvalidBinarySet"
    by blast
  from 1 2 3 w t 4 show ?thesis by simp
qed

theorem Deserialize_malformed_counterexample:
  "GetByName [''GPU_FAISS_FLAT'' \<mapsto> []] (Type stub_externals) = Some [] \<and>
   Deserialize stub_externals new_GpuFlatIndexNode [''GPU_FAISS_FLAT'' \<mapsto> []] =
     (faiss_inner_error, new_GpuFlatIndexNode) \<and>
   faiss_inner_error \<noteq> invalid_binary_set"
  by (simp add: Deserialize_def GetByName_def Type_def stub_externals_def)

end
